theory Spec2Isabelle
  imports Main
begin

section \<open>The list flags of \<open>internal/command/flag.go\<close>\<close>

text \<open>
  The file declares three flag types, \<open>envFlag\<close>, \<open>targetArchFlag\<close> and \<open>tagsFlag\<close>, each a
  \<open>[]string\<close> with a \<open>Set\<close> method on a pointer receiver. A Go string is a sequence of bytes,
  so it is a \<^typ>\<open>string\<close> here (a list of 8-bit characters), and a \<open>[]string\<close> is a
  \<^typ>\<open>string list\<close>. \<open>Set\<close> writes through its receiver: the model takes the list the receiver
  points to before the call and returns the error together with the list it points to after
  the call. Go's \<open>nil\<close> error is \<^term>\<open>None\<close>.
\<close>

subsection \<open>Library functions the methods call\<close>

text \<open>
  \<open>errors.New(text)\<close> makes an error whose only content is its text.
\<close>

datatype error = errors_New string

fun Error :: "error \<Rightarrow> string" where
  "Error (errors_New text) = text"

text \<open>
  \<open>strings.Split(s, sep)\<close> for a separator of one byte (the methods pass \<open>","\<close> and \<open>"="\<close>).
  The library looks for the first index of the separator: when there is none the rest of the
  string is the last piece, otherwise the bytes before it are a piece and the search goes on
  behind it. \<open>takeWhile\<close> and \<open>dropWhile\<close> are the bytes before the first separator and
  the string from that separator on.
\<close>

function Split :: "string \<Rightarrow> char \<Rightarrow> string list" where
  "Split s sep =
     (case dropWhile (\<lambda>c. c \<noteq> sep) s of
        [] \<Rightarrow> [s]
      | _ # rest \<Rightarrow> takeWhile (\<lambda>c. c \<noteq> sep) s # Split rest sep)"
  by pat_completeness auto
termination
proof (relation "measure (\<lambda>(s, sep). length s)")
  show "wf (measure (\<lambda>(s, sep). length s))" by simp
next
  fix s :: string and sep :: char and x rest
  assume "dropWhile (\<lambda>c. c \<noteq> sep) s = x # rest"
  then have "length (x # rest) \<le> length s"
    using length_dropWhile_le [of "\<lambda>c. c \<noteq> sep" s] by simp
  then show "((rest, sep), (s, sep)) \<in> measure (\<lambda>(s, sep). length s)" by simp
qed

declare Split.simps [simp del]

text \<open>
  \<open>strings.TrimSpace(s)\<close> removes all leading and trailing white space, as Unicode defines
  it, from a string of UTF-8 bytes. The white-space code points of Go's \<open>unicode.IsSpace\<close>
  are U+0009 to U+000D, U+0020, U+0085, U+00A0, U+1680, U+2000 to U+200A, U+2028, U+2029,
  U+202F, U+205F and U+3000; \<open>space_encodings\<close> lists their UTF-8 encodings. The library
  decodes one rune at a time from the left and then from the right; a byte sequence that is
  not valid UTF-8 decodes to U+FFFD, which is not white space, and a rune decodes to a
  white-space code point exactly when its bytes are that code point's encoding. So trimming
  removes encodings of this list from the front as long as the string starts with one, and
  then from the back as long as the rest ends with one.
\<close>

definition space_encodings :: "string list" where
  "space_encodings =
     [[CHR 0x09], [CHR 0x0A], [CHR 0x0B], [CHR 0x0C], [CHR 0x0D], [CHR 0x20],
      [CHR 0xC2, CHR 0x85], [CHR 0xC2, CHR 0xA0],
      [CHR 0xE1, CHR 0x9A, CHR 0x80],
      [CHR 0xE2, CHR 0x80, CHR 0x80], [CHR 0xE2, CHR 0x80, CHR 0x81],
      [CHR 0xE2, CHR 0x80, CHR 0x82], [CHR 0xE2, CHR 0x80, CHR 0x83],
      [CHR 0xE2, CHR 0x80, CHR 0x84], [CHR 0xE2, CHR 0x80, CHR 0x85],
      [CHR 0xE2, CHR 0x80, CHR 0x86], [CHR 0xE2, CHR 0x80, CHR 0x87],
      [CHR 0xE2, CHR 0x80, CHR 0x88], [CHR 0xE2, CHR 0x80, CHR 0x89],
      [CHR 0xE2, CHR 0x80, CHR 0x8A],
      [CHR 0xE2, CHR 0x80, CHR 0xA8], [CHR 0xE2, CHR 0x80, CHR 0xA9],
      [CHR 0xE2, CHR 0x80, CHR 0xAF], [CHR 0xE2, CHR 0x81, CHR 0x9F],
      [CHR 0xE3, CHR 0x80, CHR 0x80]]"

definition leading_space :: "string \<Rightarrow> string option" where
  "leading_space s = find (\<lambda>e. take (length e) s = e) space_encodings"

definition trailing_space :: "string \<Rightarrow> string option" where
  "trailing_space s = find (\<lambda>e. drop (length s - length e) s = e) space_encodings"

function TrimLeftSpace :: "string \<Rightarrow> string" where
  "TrimLeftSpace s =
     (case leading_space s of
        None \<Rightarrow> s
      | Some e \<Rightarrow> TrimLeftSpace (drop (length e) s))"
  by pat_completeness auto
termination
proof (relation "measure length")
  show "wf (measure length)" by simp
next
  fix s e :: string
  assume "leading_space s = Some e"
  then have "e \<in> set space_encodings" and e: "take (length e) s = e"
    by (auto simp: leading_space_def find_Some_iff)
  then have "e \<noteq> []"
    by (auto simp: space_encodings_def)
  with e have "s \<noteq> []" by auto
  with \<open>e \<noteq> []\<close> show "(drop (length e) s, s) \<in> measure length" by simp
qed

function TrimRightSpace :: "string \<Rightarrow> string" where
  "TrimRightSpace s =
     (case trailing_space s of
        None \<Rightarrow> s
      | Some e \<Rightarrow> TrimRightSpace (take (length s - length e) s))"
  by pat_completeness auto
termination
proof (relation "measure length")
  show "wf (measure length)" by simp
next
  fix s e :: string
  assume "trailing_space s = Some e"
  then have "e \<in> set space_encodings" and e: "drop (length s - length e) s = e"
    by (auto simp: trailing_space_def find_Some_iff)
  then have "e \<noteq> []"
    by (auto simp: space_encodings_def)
  with e have "s \<noteq> []" by auto
  with \<open>e \<noteq> []\<close> show "(take (length s - length e) s, s) \<in> measure length" by simp
qed

declare TrimLeftSpace.simps [simp del] TrimRightSpace.simps [simp del]

definition TrimSpace :: "string \<Rightarrow> string" where
  "TrimSpace s = TrimRightSpace (TrimLeftSpace s)"

subsection \<open>The three \<open>Set\<close> methods\<close>

text \<open>
  The loop \<open>for _, v := range strings.Split(value, ",") { *ef = append(*ef, v) }\<close> of
  \<open>envFlag.Set\<close>: the first argument is the list the receiver points to, the second the
  pieces still to visit.
\<close>

fun append_pieces :: "string list \<Rightarrow> string list \<Rightarrow> string list" where
  "append_pieces ef [] = ef"
| "append_pieces ef (v # vs) = append_pieces (ef @ [v]) vs"

text \<open>
  The same loop in \<open>targetArchFlag.Set\<close> and \<open>tagsFlag.Set\<close>, which append
  \<open>strings.TrimSpace(v)\<close>.
\<close>

fun append_trimmed :: "string list \<Rightarrow> string list \<Rightarrow> string list" where
  "append_trimmed af [] = af"
| "append_trimmed af (v # vs) = append_trimmed (af @ [TrimSpace v]) vs"

text \<open>
  The validation loop of \<open>envFlag.Set\<close> over the elements of the receiver: it returns at the
  first element that does not split on \<open>"="\<close> into two parts, and falls through to
  \<open>return nil\<close> otherwise.
\<close>

fun validate_env :: "string list \<Rightarrow> error option" where
  "validate_env [] = None"
| "validate_env (v # vs) =
     (let parts = Split v CHR ''=''
      in if length parts \<noteq> 2
         then Some (errors_New ''env var must defined as KEY=VALUE or KEY='')
         else validate_env vs)"

text \<open>
  \<open>func (ef *envFlag) Set(value string) error\<close>. The receiver is assigned the empty slice
  first; the length test and the two loops follow in the order of the source.
\<close>

definition envFlag_Set :: "string list \<Rightarrow> string \<Rightarrow> error option \<times> string list" where
  "envFlag_Set ef val =
     (let ef = [] in
      if length ef > 1 then (Some (errors_New ''flag already set''), ef)
      else
        let ef = append_pieces ef (Split val CHR '','')
        in (validate_env ef, ef))"

text \<open>\<open>func (af *targetArchFlag) Set(value string) error\<close>.\<close>

definition targetArchFlag_Set :: "string list \<Rightarrow> string \<Rightarrow> error option \<times> string list" where
  "targetArchFlag_Set af val =
     (let af = [] in
      if length af > 1 then (Some (errors_New ''flag already set''), af)
      else
        let af = append_trimmed af (Split val CHR '','')
        in (None, af))"

text \<open>\<open>func (tf *tagsFlag) Set(value string) error\<close>.\<close>

definition tagsFlag_Set :: "string list \<Rightarrow> string \<Rightarrow> error option \<times> string list" where
  "tagsFlag_Set tf val =
     (let tf = [] in
      if length tf > 1 then (Some (errors_New ''flag already set''), tf)
      else
        let tf = append_trimmed tf (Split val CHR '','')
        in (None, tf))"

text \<open>
  A run of \<open>Set\<close> calls on one env flag, one call per raw argument, each call working on the
  list the call before it left behind, whether that call returned an error or not. The
  result is the error of the last call (\<^term>\<open>None\<close> when there was no call) and the list
  after it.
\<close>

fun envFlag_Set_calls :: "string list \<Rightarrow> string list \<Rightarrow> error option \<times> string list" where
  "envFlag_Set_calls ef [] = (None, ef)"
| "envFlag_Set_calls ef (val # vals) =
     (if vals = [] then envFlag_Set ef val
      else envFlag_Set_calls (snd (envFlag_Set ef val)) vals)"

text \<open>
  This definition follows the specification's words, not the source: of a list of pieces,
  "the pieces up to and including the first invalid one", a piece being invalid when it
  does not split on \<open>"="\<close> into two parts. It is what the specification says a failed
  \<open>Set\<close> leaves in the list, to be compared with what \<open>envFlag_Set\<close> leaves there.
\<close>

fun spec_upto_first_invalid :: "string list \<Rightarrow> string list" where
  "spec_upto_first_invalid [] = []"
| "spec_upto_first_invalid (v # vs) =
     (if length (Split v CHR ''='') \<noteq> 2 then [v] else v # spec_upto_first_invalid vs)"

section \<open>Facts about the library functions\<close>

lemma Split_no_sep:
  "dropWhile (\<lambda>c. c \<noteq> sep) s = [] \<Longrightarrow> Split s sep = [s]"
  by (subst Split.simps) (simp only: list.simps)

lemma Split_at_sep:
  "dropWhile (\<lambda>c. c \<noteq> sep) s = y # rest \<Longrightarrow>
   Split s sep = takeWhile (\<lambda>c. c \<noteq> sep) s # Split rest sep"
  by (subst Split.simps) (simp only: list.simps)

lemma Split_Nil: "Split [] sep = [[]]"
  by (rule Split_no_sep) simp

lemma Split_Cons_sep: "Split (sep # xs) sep = [] # Split xs sep"
  by (rule Split_at_sep [where y = sep, THEN trans]) simp_all

lemma Split_Cons_other:
  assumes "x \<noteq> sep"
  shows "Split (x # xs) sep = (x # hd (Split xs sep)) # tl (Split xs sep)"
proof (cases "dropWhile (\<lambda>c. c \<noteq> sep) xs")
  case Nil
  from Nil have "Split xs sep = [xs]"
    by (rule Split_no_sep)
  moreover from Nil assms have "dropWhile (\<lambda>c. c \<noteq> sep) (x # xs) = []"
    by simp
  then have "Split (x # xs) sep = [x # xs]"
    by (rule Split_no_sep)
  ultimately show ?thesis by simp
next
  case (Cons y rest)
  from Cons have "Split xs sep = takeWhile (\<lambda>c. c \<noteq> sep) xs # Split rest sep"
    by (rule Split_at_sep)
  moreover from Cons assms have "dropWhile (\<lambda>c. c \<noteq> sep) (x # xs) = y # rest"
    by simp
  then have "Split (x # xs) sep = takeWhile (\<lambda>c. c \<noteq> sep) (x # xs) # Split rest sep"
    by (rule Split_at_sep)
  ultimately show ?thesis using assms by simp
qed

lemma Split_Cons:
  "Split (x # xs) sep =
     (if x = sep then [] # Split xs sep
      else (x # hd (Split xs sep)) # tl (Split xs sep))"
  by (simp add: Split_Cons_sep Split_Cons_other)

lemmas Split_eval = Split_Nil Split_Cons

lemma Split_not_Nil: "Split s sep \<noteq> []"
  by (cases s) (simp_all add: Split_eval)

lemma Split_length: "length (Split s sep) = Suc (count_list s sep)"
proof (induction s)
  case Nil
  show ?case by (simp add: Split_Nil)
next
  case (Cons x xs)
  have "Split xs sep \<noteq> []" by (rule Split_not_Nil)
  with Cons show ?case
    by (cases "x = sep") (simp_all add: Split_Cons_sep Split_Cons_other)
qed

lemma Split_two_parts: "(length (Split s sep) = 2) = (count_list s sep = 1)"
  by (simp add: Split_length)

lemma Split_snoc_sep: "Split (s @ [sep]) sep = Split s sep @ [[]]"
proof (induction s)
  case Nil
  show ?case by (simp add: Split_Nil Split_Cons_sep)
next
  case (Cons x xs)
  have "Split xs sep \<noteq> []" by (rule Split_not_Nil)
  with Cons show ?case
    by (cases "x = sep") (simp_all add: Split_Cons_sep Split_Cons_other)
qed

lemma leading_space_TrimLeftSpace: "leading_space (TrimLeftSpace s) = None"
proof (induction s rule: TrimLeftSpace.induct)
  case (1 s)
  show ?case
  proof (cases "leading_space s")
    case None
    then show ?thesis by (simp add: TrimLeftSpace.simps [of s])
  next
    case (Some e)
    with 1 show ?thesis by (simp add: TrimLeftSpace.simps [of s])
  qed
qed

lemma trailing_space_TrimRightSpace: "trailing_space (TrimRightSpace s) = None"
proof (induction s rule: TrimRightSpace.induct)
  case (1 s)
  show ?case
  proof (cases "trailing_space s")
    case None
    then show ?thesis by (simp add: TrimRightSpace.simps [of s])
  next
    case (Some e)
    with 1 show ?thesis by (simp add: TrimRightSpace.simps [of s])
  qed
qed

lemma leading_space_take:
  assumes "leading_space s = None"
  shows "leading_space (take n s) = None"
proof (rule ccontr)
  assume "leading_space (take n s) \<noteq> None"
  then obtain e where "leading_space (take n s) = Some e" by auto
  then have mem: "e \<in> set space_encodings" and e: "take (length e) (take n s) = e"
    by (auto simp: leading_space_def find_Some_iff)
  from e have "length e = min (length e) (min n (length s))"
    by (metis length_take min.commute)
  then have "length e \<le> n" by simp
  with e have "take (length e) s = e" by (simp add: min_absorb1)
  with mem have "leading_space s \<noteq> None"
    by (auto simp: leading_space_def find_None_iff)
  with assms show False by simp
qed

lemma leading_space_TrimRightSpace:
  "leading_space s = None \<Longrightarrow> leading_space (TrimRightSpace s) = None"
proof (induction s rule: TrimRightSpace.induct)
  case (1 s)
  show ?case
  proof (cases "trailing_space s")
    case None
    with 1 show ?thesis by (simp add: TrimRightSpace.simps [of s])
  next
    case (Some e)
    with 1 leading_space_take [of s "length s - length e"] show ?thesis
      by (simp add: TrimRightSpace.simps [of s])
  qed
qed

lemma TrimSpace_trimmed:
  "leading_space (TrimSpace s) = None \<and> trailing_space (TrimSpace s) = None"
  by (simp add: TrimSpace_def leading_space_TrimLeftSpace leading_space_TrimRightSpace
      trailing_space_TrimRightSpace)

section \<open>The methods as equations\<close>

lemma append_pieces_eq: "append_pieces ef vs = ef @ vs"
  by (induction vs arbitrary: ef) simp_all

lemma append_trimmed_eq: "append_trimmed af vs = af @ map TrimSpace vs"
  by (induction vs arbitrary: af) simp_all

lemma envFlag_Set_eq:
  "envFlag_Set ef val = (validate_env (Split val CHR '',''), Split val CHR '','')"
  by (simp add: envFlag_Set_def append_pieces_eq Let_def)

lemma targetArchFlag_Set_eq:
  "targetArchFlag_Set af val = (None, map TrimSpace (Split val CHR '',''))"
  by (simp add: targetArchFlag_Set_def append_trimmed_eq)

lemma tagsFlag_Set_eq:
  "tagsFlag_Set tf val = (None, map TrimSpace (Split val CHR '',''))"
  by (simp add: tagsFlag_Set_def append_trimmed_eq)

lemma validate_env_None:
  "(validate_env vs = None) = (\<forall>v \<in> set vs. length (Split v CHR ''='') = 2)"
  by (induction vs) (simp_all add: Let_def)

lemma validate_env_Some:
  "validate_env vs = Some err \<Longrightarrow>
   err = errors_New ''env var must defined as KEY=VALUE or KEY=''"
  by (induction vs) (simp_all add: Let_def split: if_splits)

lemma envFlag_Set_calls_last:
  "envFlag_Set_calls ef (vals @ [val]) =
     (validate_env (Split val CHR '',''), Split val CHR '','')"
proof (induction vals arbitrary: ef)
  case Nil
  show ?case by (simp add: envFlag_Set_eq)
next
  case (Cons v vs)
  then show ?case by simp
qed

lemma take_spec_upto_first_invalid:
  "take (length (spec_upto_first_invalid vs)) vs = spec_upto_first_invalid vs"
  by (induction vs) simp_all

section \<open>The claims\<close>

subsection \<open>The "flag already set" test\<close>

text \<open>
  Claim C1: for every list-flag variant, a \<open>Set\<close> call on a destination that already holds
  more than one element returns the "flag already set" error; in particular a \<open>Set\<close> call
  that stored two elements, followed by a further \<open>Set\<close> call, returns it.

  The source does not behave so. Each method assigns the empty slice to its receiver in
  its first statement and tests \<open>len(*ef) > 1\<close> only afterwards, so the test is made on the
  empty list and its branch is never taken. The theorem evaluates the three methods on a
  destination of two elements, and the env method on the two calls in a row: every call
  returns \<open>nil\<close> and stores the pieces of its own argument.
\<close>

theorem already_set_not_returned_after_two_elements:
  "envFlag_Set [''a=1'', ''b=2''] ''c=3'' = (None, [''c=3''])
   \<and> targetArchFlag_Set [''amd64'', ''arm64''] ''386'' = (None, [''386''])
   \<and> tagsFlag_Set [''x'', ''y''] ''z'' = (None, [''z''])
   \<and> envFlag_Set [] ''a=1,b=2'' = (None, [''a=1'', ''b=2''])
   \<and> envFlag_Set_calls [] [''a=1,b=2'', ''c=3''] = (None, [''c=3''])"
  by code_simp

text \<open>
  Claim C2: for every list-flag variant and every two prior contents of the destination,
  \<open>Set\<close> with the same raw argument gives the same final list and the same error: the
  outcome depends on the raw argument only, because the destination is reset before its
  length is tested, and the "flag already set" error is returned by no call.
\<close>

theorem Set_outcome_depends_on_argument_only:
  "envFlag_Set ef1 val = envFlag_Set ef2 val
   \<and> targetArchFlag_Set af1 val = targetArchFlag_Set af2 val
   \<and> tagsFlag_Set tf1 val = tagsFlag_Set tf2 val
   \<and> fst (envFlag_Set ef1 val) \<noteq> Some (errors_New ''flag already set'')
   \<and> fst (targetArchFlag_Set af1 val) \<noteq> Some (errors_New ''flag already set'')
   \<and> fst (tagsFlag_Set tf1 val) \<noteq> Some (errors_New ''flag already set'')"
proof -
  have "validate_env (Split val CHR '','') \<noteq> Some (errors_New ''flag already set'')"
  proof
    assume "validate_env (Split val CHR '','') = Some (errors_New ''flag already set'')"
    then have "errors_New ''flag already set'' =
        errors_New ''env var must defined as KEY=VALUE or KEY=''"
      by (rule validate_env_Some)
    then show False
      by simp
  qed
  then show ?thesis
    by (simp add: envFlag_Set_eq targetArchFlag_Set_eq tagsFlag_Set_eq)
qed

theorem Set_outcome_depends_on_argument_only_witness:
  "envFlag_Set [''x=1'', ''y=2''] ''a=1,b'' = envFlag_Set [] ''a=1,b''
   \<and> envFlag_Set [] ''a=1,b'' =
       (Some (errors_New ''env var must defined as KEY=VALUE or KEY=''), [''a=1'', ''b''])
   \<and> tagsFlag_Set [''x'', ''y''] ''a=1,b'' = tagsFlag_Set [] ''a=1,b''
   \<and> tagsFlag_Set [] ''a=1,b'' = (None, [''a=1'', ''b''])"
proof -
  have "envFlag_Set [] ''a=1,b'' =
      (Some (errors_New ''env var must defined as KEY=VALUE or KEY=''), [''a=1'', ''b''])"
    by code_simp
  moreover have "tagsFlag_Set [] ''a=1,b'' = (None, [''a=1'', ''b''])"
    by code_simp
  ultimately show ?thesis
    using Set_outcome_depends_on_argument_only
      [of "[''x=1'', ''y=2'']" "''a=1,b''" "[]" "[]" "[]" "[''x'', ''y'']" "[]"]
    by simp
qed

subsection \<open>What a failed \<open>Set\<close> leaves behind\<close>

text \<open>
  Claim C3, as stated: whenever the env variant's \<open>Set\<close> fails validation, the destination
  holds exactly the comma-split pieces up to and including the first invalid one.

  This fails on \<open>"a,b=1"\<close>. The first piece \<open>"a"\<close> is the invalid one, so the pieces up to
  and including it are \<open>["a"]\<close>, but the method appends every piece before it validates
  any, and the destination is \<open>["a","b=1"]\<close>.
\<close>

theorem failed_envFlag_Set_not_cut_at_first_invalid:
  "envFlag_Set [] ''a,b=1'' =
     (Some (errors_New ''env var must defined as KEY=VALUE or KEY=''), [''a'', ''b=1''])
   \<and> spec_upto_first_invalid (Split ''a,b=1'' CHR '','') = [''a'']
   \<and> snd (envFlag_Set [] ''a,b=1'') \<noteq> spec_upto_first_invalid (Split ''a,b=1'' CHR '','')"
  by code_simp

text \<open>
  Claim C3, amended: whenever the env variant's \<open>Set\<close> fails validation, the destination
  holds all the comma-split pieces of the raw argument, in order, those behind the first
  invalid piece included. So it is not empty, it does not depend on what the destination
  held before the call, and it starts with the pieces up to and including the first
  invalid one.
\<close>

theorem failed_envFlag_Set_keeps_every_piece:
  assumes "fst (envFlag_Set ef val) \<noteq> None"
  shows "snd (envFlag_Set ef val) = Split val CHR '',''
         \<and> snd (envFlag_Set ef val) \<noteq> []
         \<and> snd (envFlag_Set ef val) = snd (envFlag_Set ef' val)
         \<and> take (length (spec_upto_first_invalid (Split val CHR '','')))
              (snd (envFlag_Set ef val)) = spec_upto_first_invalid (Split val CHR '','')"
  by (simp add: envFlag_Set_eq Split_not_Nil take_spec_upto_first_invalid)

theorem failed_envFlag_Set_keeps_every_piece_witness:
  "fst (envFlag_Set [''x=1''] ''a=1,b,c=2'') \<noteq> None
   \<and> snd (envFlag_Set [''x=1''] ''a=1,b,c=2'') = [''a=1'', ''b'', ''c=2'']
   \<and> spec_upto_first_invalid (Split ''a=1,b,c=2'' CHR '','') = [''a=1'', ''b'']"
proof -
  have h: "fst (envFlag_Set [''x=1''] ''a=1,b,c=2'') \<noteq> None"
    by code_simp
  have s: "Split ''a=1,b,c=2'' CHR '','' = [''a=1'', ''b'', ''c=2'']"
    by code_simp
  have u: "spec_upto_first_invalid [''a=1'', ''b'', ''c=2''] = [''a=1'', ''b'']"
    by code_simp
  from failed_envFlag_Set_keeps_every_piece [OF h, of "[]"] h s u show ?thesis
    by simp
qed

text \<open>
  Claim C4, as stated: after any sequence of \<open>Set\<close> calls, every element of the env
  destination contains exactly one \<open>=\<close>.

  This fails after a call that returns the validation error: the calls \<open>Set("a=1")\<close> and
  \<open>Set("b")\<close> leave the list \<open>["b"]\<close>, whose element contains no \<open>=\<close>.
\<close>

theorem env_elements_after_failed_Set:
  "envFlag_Set_calls [] [''a=1'', ''b''] =
     (Some (errors_New ''env var must defined as KEY=VALUE or KEY=''), [''b''])
   \<and> count_list ''b'' CHR ''='' = 0
   \<and> \<not> (\<forall>e \<in> set (snd (envFlag_Set_calls [] [''a=1'', ''b''])). count_list e CHR ''='' = 1)"
  by code_simp

text \<open>
  Claim C4, amended: after any sequence of \<open>Set\<close> calls on an env flag that starts empty,
  if the last call returned no error (or there was no call), every element of the
  destination contains exactly one \<open>=\<close>.
\<close>

theorem env_elements_after_successful_Set:
  assumes "fst (envFlag_Set_calls [] vals) = None"
  shows "\<forall>e \<in> set (snd (envFlag_Set_calls [] vals)). count_list e CHR ''='' = 1"
proof (cases vals rule: rev_cases)
  case Nil
  then show ?thesis by simp
next
  case (snoc vs v)
  with assms have "validate_env (Split v CHR '','') = None"
    by (simp add: envFlag_Set_calls_last)
  then have "\<forall>e \<in> set (Split v CHR '',''). count_list e CHR ''='' = 1"
    by (simp add: validate_env_None Split_two_parts)
  with snoc show ?thesis
    by (simp add: envFlag_Set_calls_last)
qed

theorem env_elements_after_successful_Set_witness:
  "fst (envFlag_Set_calls [] [''b'', ''a=1,c='']) = None
   \<and> snd (envFlag_Set_calls [] [''b'', ''a=1,c='']) = [''a=1'', ''c='']
   \<and> count_list ''a=1'' CHR ''='' = 1 \<and> count_list ''c='' CHR ''='' = 1"
proof -
  have h: "fst (envFlag_Set_calls [] [''b'', ''a=1,c='']) = None"
    by code_simp
  have s: "snd (envFlag_Set_calls [] [''b'', ''a=1,c='']) = [''a=1'', ''c='']"
    by code_simp
  from env_elements_after_successful_Set [OF h] h s show ?thesis
    by simp
qed

subsection \<open>Validation of env entries\<close>

text \<open>
  Claim C5: the env variant's \<open>Set\<close> returns an error if and only if some comma-split piece
  of the raw argument does not split on \<open>=\<close> into exactly two parts. A piece splits into
  two parts exactly when it contains one \<open>=\<close>: \<open>"FOO="\<close> (parts \<open>"FOO"\<close> and \<open>""\<close>) is
  accepted, \<open>"FOO=BAR=BAZ"\<close> (three parts) and \<open>"FOO"\<close> (one part) are rejected.
\<close>

theorem envFlag_Set_error_iff:
  "(fst (envFlag_Set ef val) \<noteq> None) =
     (\<exists>p \<in> set (Split val CHR '',''). length (Split p CHR ''='') \<noteq> 2)
   \<and> (length (Split p CHR ''='') = 2) = (count_list p CHR ''='' = 1)
   \<and> Split ''FOO='' CHR ''='' = [''FOO'', []]
   \<and> envFlag_Set ef ''FOO='' = (None, [''FOO=''])
   \<and> Split ''FOO=BAR=BAZ'' CHR ''='' = [''FOO'', ''BAR'', ''BAZ'']
   \<and> fst (envFlag_Set ef ''FOO=BAR=BAZ'') \<noteq> None
   \<and> Split ''FOO'' CHR ''='' = [''FOO'']
   \<and> fst (envFlag_Set ef ''FOO'') \<noteq> None"
proof -
  have "(validate_env vs \<noteq> None) = (\<exists>p \<in> set vs. length (Split p CHR ''='') \<noteq> 2)" for vs
    by (simp add: validate_env_None)
  then have "(fst (envFlag_Set ef val) \<noteq> None) =
     (\<exists>p \<in> set (Split val CHR '',''). length (Split p CHR ''='') \<noteq> 2)"
    by (simp add: envFlag_Set_eq)
  moreover have "(length (Split p CHR ''='') = 2) = (count_list p CHR ''='' = 1)"
    by (rule Split_two_parts)
  moreover have "Split ''FOO='' CHR ''='' = [''FOO'', []]"
    by code_simp
  moreover have "envFlag_Set ef ''FOO='' = (None, [''FOO=''])"
    by (simp add: envFlag_Set_eq Split_eval)
  moreover have "Split ''FOO=BAR=BAZ'' CHR ''='' = [''FOO'', ''BAR'', ''BAZ'']"
    by code_simp
  moreover have "fst (envFlag_Set ef ''FOO=BAR=BAZ'') \<noteq> None"
    by (simp add: envFlag_Set_eq Split_eval)
  moreover have "Split ''FOO'' CHR ''='' = [''FOO'']"
    by code_simp
  moreover have "fst (envFlag_Set ef ''FOO'') \<noteq> None"
    by (simp add: envFlag_Set_eq Split_eval)
  ultimately show ?thesis by blast
qed

theorem envFlag_Set_error_iff_witness:
  "fst (envFlag_Set [] ''a=1,b=2=3'') \<noteq> None
   \<and> ''b=2=3'' \<in> set (Split ''a=1,b=2=3'' CHR '','')
   \<and> length (Split ''b=2=3'' CHR ''='') = 3
   \<and> count_list ''b=2=3'' CHR ''='' = 2"
proof -
  have s: "Split ''a=1,b=2=3'' CHR '','' = [''a=1'', ''b=2=3'']"
    by code_simp
  have l: "length (Split ''b=2=3'' CHR ''='') = 3"
    by code_simp
  have c: "count_list ''b=2=3'' CHR ''='' = 2"
    by code_simp
  from s l have "\<exists>p \<in> set (Split ''a=1,b=2=3'' CHR '',''). length (Split p CHR ''='') \<noteq> 2"
    by simp
  with envFlag_Set_error_iff [of "[]" "''a=1,b=2=3''" "''b=2=3''"] s l c show ?thesis
    by simp
qed

text \<open>
  Claim C7, as stated: the error of a failed validation carries exactly the text
  \<open>"env var must be defined as KEY=VALUE or KEY="\<close>.

  The text in the source has no "be": it is \<open>"env var must defined as KEY=VALUE or KEY="\<close>.
\<close>

theorem malformed_env_text_differs:
  "fst (envFlag_Set [] ''b'') =
     Some (errors_New ''env var must defined as KEY=VALUE or KEY='')
   \<and> fst (envFlag_Set [] ''b'') \<noteq>
       Some (errors_New ''env var must be defined as KEY=VALUE or KEY='')"
  by code_simp

text \<open>
  Claim C7, amended: every error the env variant's \<open>Set\<close> returns carries exactly the text
  \<open>"env var must defined as KEY=VALUE or KEY="\<close>, which ends with the expected shape
  \<open>KEY=VALUE or KEY=\<close>.
\<close>

theorem malformed_env_text:
  assumes "fst (envFlag_Set ef val) = Some err"
  shows "Error err = ''env var must defined as KEY=VALUE or KEY=''
         \<and> Error err = ''env var must defined as '' @ ''KEY=VALUE or KEY=''"
proof -
  from assms have "validate_env (Split val CHR '','') = Some err"
    by (simp add: envFlag_Set_eq)
  then have "err = errors_New ''env var must defined as KEY=VALUE or KEY=''"
    by (rule validate_env_Some)
  then show ?thesis by simp
qed

theorem malformed_env_text_witness:
  "fst (envFlag_Set [''x=1''] ''a=1,b'') =
     Some (errors_New ''env var must defined as KEY=VALUE or KEY='')
   \<and> Error (errors_New ''env var must defined as KEY=VALUE or KEY='') =
       ''env var must defined as KEY=VALUE or KEY=''"
proof -
  have h: "fst (envFlag_Set [''x=1''] ''a=1,b'') =
      Some (errors_New ''env var must defined as KEY=VALUE or KEY='')"
    by code_simp
  from malformed_env_text [OF h] h show ?thesis
    by simp
qed

text \<open>
  Claim C8: \<open>Set("a=1,b=2")\<close> on an env flag returns no error and leaves exactly the list
  \<open>["a=1","b=2"]\<close>, whatever the flag held before.
\<close>

theorem envFlag_Set_two_assignments:
  "envFlag_Set ef ''a=1,b=2'' = (None, [''a=1'', ''b=2''])"
  by (simp add: envFlag_Set_eq Split_eval)

subsection \<open>Trimming, empty pieces and the variants that cannot fail\<close>

text \<open>
  Claim C6: for every raw argument the architecture and tags variants store the
  comma-split pieces with surrounding white space trimmed (what \<open>TrimSpace\<close> returns starts
  and ends with no white space), and the env variant stores the pieces as they are.
  \<open>Set(" foo , bar ")\<close> on a tags or architecture flag gives \<open>["foo","bar"]\<close>; on an env
  flag it stores \<open>" foo "\<close> and \<open>" bar "\<close>.
\<close>

theorem arch_and_tags_trim_env_does_not:
  "snd (targetArchFlag_Set af val) = map TrimSpace (Split val CHR '','')
   \<and> snd (tagsFlag_Set tf val) = map TrimSpace (Split val CHR '','')
   \<and> snd (envFlag_Set ef val) = Split val CHR '',''
   \<and> leading_space (TrimSpace s) = None \<and> trailing_space (TrimSpace s) = None
   \<and> tagsFlag_Set tf '' foo , bar '' = (None, [''foo'', ''bar''])
   \<and> targetArchFlag_Set af '' foo , bar '' = (None, [''foo'', ''bar''])
   \<and> snd (envFlag_Set ef '' foo , bar '') = ['' foo '', '' bar '']"
proof -
  have s: "Split '' foo , bar '' CHR '','' = ['' foo '', '' bar '']"
    by code_simp
  have t: "TrimSpace '' foo '' = ''foo''" "TrimSpace '' bar '' = ''bar''"
    by code_simp+
  show ?thesis
    by (simp add: targetArchFlag_Set_eq tagsFlag_Set_eq envFlag_Set_eq TrimSpace_trimmed s t)
qed

text \<open>
  Claim C9: \<open>Set("")\<close> on a tags flag succeeds and leaves the one-element list \<open>[""]\<close>, not
  the empty list. In general the empty string splits into one empty piece, and a raw
  argument that ends with the separator gets an empty last piece.
\<close>

theorem empty_argument_is_one_empty_piece:
  "tagsFlag_Set tf [] = (None, [[]])
   \<and> Split [] sep = [[]]
   \<and> Split (s @ [sep]) sep = Split s sep @ [[]]
   \<and> snd (tagsFlag_Set tf (val @ '','')) = snd (tagsFlag_Set tf val) @ [[]]
   \<and> tagsFlag_Set tf ''a,'' = (None, [''a'', []])"
proof -
  have t: "TrimSpace [] = []" "TrimSpace ''a'' = ''a''"
    by code_simp+
  show ?thesis
    by (simp add: tagsFlag_Set_eq Split_Nil Split_snoc_sep Split_eval t)
qed

text \<open>
  Claim C10: for every raw argument and every prior content of the destination, the
  architecture and tags variants' \<open>Set\<close> returns \<open>nil\<close>.
\<close>

theorem arch_and_tags_Set_never_fail:
  "fst (targetArchFlag_Set af val) = None \<and> fst (tagsFlag_Set tf val) = None"
  by (simp add: targetArchFlag_Set_eq tagsFlag_Set_eq)

end
